theory Spec2Isabelle
  imports Complex_Main
begin

section \<open>Data model\<close>

text \<open>
  The knowledge graph component (\<^verbatim>\<open>KnowledgeGraph\<close>, with \<^verbatim>\<open>Note\<close>,
  \<^verbatim>\<open>NoteMetadata\<close> and \<^verbatim>\<open>SmartLink\<close> from the shared type declarations).
  Only the fields that the component reads are kept. A TypeScript \<^verbatim>\<open>number\<close> is modelled
  as a real number: rounding, overflow and NaN of IEEE doubles are outside this model.
  Renamed fields: \<^verbatim>\<open>id\<close> is \<open>note_id\<close>, a node's \<^verbatim>\<open>x\<close> and \<^verbatim>\<open>y\<close> are
  \<open>node_x\<close> and \<open>node_y\<close>, a link's \<^verbatim>\<open>reason\<close> is \<open>link_reason\<close>.
\<close>

datatype LifeAxis =
  Career | Health | Relationships | Learning | MentalState | CreativeOutput | Unclassified

record SmartLink =
  targetId :: string
  targetTitle :: string
  reason :: string

record NoteMetadata =
  lifeAxis :: "LifeAxis option"
  smartLinks :: "SmartLink list option"

record Note =
  note_id :: string
  title :: string
  content :: string
  metadata :: "NoteMetadata option"

record Node = Note +
  node_x :: real
  node_y :: real
  vx :: real
  vy :: real
  radius :: real
  isCurrent :: bool
  color :: string

record Link =
  source :: string
  target :: string
  link_reason :: string

record GraphData =
  nodes :: "Node list"
  links :: "Link list"

section \<open>Graph builder\<close>

text \<open>
  \<^verbatim>\<open>allNotes.map(n => n.id === currentNote.id ? currentNote : n)\<close>, followed by the push of
  \<^verbatim>\<open>currentNote\<close> when \<^verbatim>\<open>find\<close> returns nothing.
\<close>

definition mergedNotes :: "Note \<Rightarrow> Note list \<Rightarrow> Note list" where
  "mergedNotes currentNote allNotes =
     (let merged = map (\<lambda>n. if note_id n = note_id currentNote then currentNote else n) allNotes
      in if find (\<lambda>n. note_id n = note_id currentNote) merged = None
         then merged @ [currentNote] else merged)"

text \<open>The \<^verbatim>\<open>switch\<close> on \<^verbatim>\<open>n.metadata?.lifeAxis\<close>; the default is the muted colour.\<close>

definition axisColor :: "NoteMetadata option \<Rightarrow> string" where
  "axisColor md =
     (case md of
        None \<Rightarrow> ''#64748b''
      | Some m \<Rightarrow>
          (case lifeAxis m of
             Some Career \<Rightarrow> ''#3b82f6''
           | Some Health \<Rightarrow> ''#10b981''
           | Some CreativeOutput \<Rightarrow> ''#8b5cf6''
           | Some Learning \<Rightarrow> ''#f59e0b''
           | Some Relationships \<Rightarrow> ''#f43f5e''
           | Some MentalState \<Rightarrow> ''#06b6d4''
           | _ \<Rightarrow> ''#64748b''))"

text \<open>
  The body of \<^verbatim>\<open>mergedNotes.forEach\<close>. The two results of \<^verbatim>\<open>Math.random()\<close> are the
  parameters \<open>r1\<close> and \<open>r2\<close>.
\<close>

definition makeNode :: "Note \<Rightarrow> real \<Rightarrow> real \<Rightarrow> Note \<Rightarrow> Node" where
  "makeNode currentNote r1 r2 n =
     (let cur = (note_id n = note_id currentNote) in
      \<lparr> note_id = note_id n, title = title n, content = content n, metadata = metadata n,
        node_x = r1 * 800 - 400,
        node_y = r2 * 600 - 300,
        vx = 0,
        vy = 0,
        radius = (if cur then 20 else 8 + min (real (length (content n)) / 500) 10),
        isCurrent = cur,
        color = (if cur then ''#ffffff'' else axisColor (metadata n)) \<rparr>)"

text \<open>
  The loop that fills \<^verbatim>\<open>nodes\<close> and \<^verbatim>\<open>nodeMap\<close>. The stream \<open>rnd\<close> lists the results
  of the successive calls of \<^verbatim>\<open>Math.random()\<close>; the node pushed at position \<open>k\<close> uses
  the calls \<open>2 * k\<close> and \<open>2 * k + 1\<close>.
\<close>

fun addNodes ::
  "Note \<Rightarrow> (nat \<Rightarrow> real) \<Rightarrow> Note list \<Rightarrow> Node list \<times> (string \<rightharpoonup> Node)
     \<Rightarrow> Node list \<times> (string \<rightharpoonup> Node)" where
  "addNodes currentNote rnd [] acc = acc"
| "addNodes currentNote rnd (n # rest) (ns, nodeMap) =
     (let k = length ns;
          node = makeNode currentNote (rnd (2 * k)) (rnd (2 * k + 1)) n
      in addNodes currentNote rnd rest (ns @ [node], nodeMap(note_id n \<mapsto> node)))"

text \<open>\<^verbatim>\<open>links.some(...)\<close>: the bidirectional test for an existing link.\<close>

definition linkExists :: "Link list \<Rightarrow> string \<Rightarrow> string \<Rightarrow> bool" where
  "linkExists ls sid tid =
     list_ex (\<lambda>l. (source l = sid \<and> target l = tid) \<or> (source l = tid \<and> target l = sid)) ls"

text \<open>The inner \<^verbatim>\<open>smartLinks.forEach\<close> of one source node.\<close>

fun addLinks :: "(string \<rightharpoonup> Node) \<Rightarrow> string \<Rightarrow> SmartLink list \<Rightarrow> Link list \<Rightarrow> Link list" where
  "addLinks nodeMap sid [] ls = ls"
| "addLinks nodeMap sid (sl # rest) ls =
     addLinks nodeMap sid rest
       (if nodeMap (targetId sl) \<noteq> None then
          (if \<not> linkExists ls sid (targetId sl)
           then ls @ [\<lparr> source = sid, target = targetId sl, link_reason = reason sl \<rparr>]
           else ls)
        else ls)"

text \<open>
  The declared links of a node: \<^verbatim>\<open>Array.isArray(sourceNode.metadata?.smartLinks)\<close> fails when
  the metadata or the list is absent.
\<close>

definition declaredLinks :: "'a Note_scheme \<Rightarrow> SmartLink list" where
  "declaredLinks sourceNode =
     (case metadata sourceNode of
        None \<Rightarrow> []
      | Some m \<Rightarrow> (case smartLinks m of None \<Rightarrow> [] | Some sls \<Rightarrow> sls))"

text \<open>The outer \<^verbatim>\<open>nodes.forEach\<close> that creates the links.\<close>

fun buildLinks :: "(string \<rightharpoonup> Node) \<Rightarrow> Node list \<Rightarrow> Link list \<Rightarrow> Link list" where
  "buildLinks nodeMap [] ls = ls"
| "buildLinks nodeMap (sourceNode # rest) ls =
     buildLinks nodeMap rest (addLinks nodeMap (note_id sourceNode) (declaredLinks sourceNode) ls)"

definition graphData :: "Note \<Rightarrow> Note list \<Rightarrow> (nat \<Rightarrow> real) \<Rightarrow> GraphData" where
  "graphData currentNote allNotes rnd =
     (case addNodes currentNote rnd (mergedNotes currentNote allNotes) ([], Map.empty) of
        (ns, nodeMap) \<Rightarrow> \<lparr> nodes = ns, links = buildLinks nodeMap ns [] \<rparr>)"

section \<open>Force simulation\<close>

text \<open>
  The state captured by the effect closure: the graph, the canvas size, the node being
  dragged, the last pointer position recorded by \<^verbatim>\<open>handleMouseMove\<close>, the identifier of
  the current note, and the list of identifiers that \<^verbatim>\<open>onSelectNote\<close> was called with
  (oldest first). A node object is identified by its index in \<^verbatim>\<open>graphData.nodes\<close>, so
  \<^verbatim>\<open>draggingNode.current\<close> is an optional index and \<^verbatim>\<open>node === other\<close> compares indices.
  The component state \<^verbatim>\<open>hoveredNode\<close> is an optional node index and \<^verbatim>\<open>hoveredLink\<close> an
  optional triple of a link index and the pointer position. The results of
  \<^verbatim>\<open>Math.random()\<close> are the stream \<open>rndStream\<close>, of which \<open>rndCalls\<close> have been used.
  Drawing and the cursor style are not modelled.
\<close>

record GraphView = GraphData +
  width :: real
  height :: real
  draggingNode :: "nat option"
  mouseX :: real
  mouseY :: real
  currentNoteId :: string
  selected :: "string list"
  hoveredNode :: "nat option"
  hoveredLink :: "(nat \<times> real \<times> real) option"
  rndStream :: "nat \<Rightarrow> real"
  rndCalls :: nat

definition REPULSION :: real where "REPULSION = 1200"
definition SPRING_LENGTH :: real where "SPRING_LENGTH = 180"
definition SPRING_STRENGTH :: real where "SPRING_STRENGTH = 0.04"
definition DAMPING :: real where "DAMPING = 0.85"
definition CENTER_PULL :: real where "CENTER_PULL = 0.008"

text \<open>\<^verbatim>\<open>Math.sqrt(dx * dx + dy * dy) || 1\<close>: zero is the only falsy real.\<close>

definition distOr1 :: "real \<Rightarrow> real \<Rightarrow> real" where
  "distOr1 dx dy = (let d = sqrt (dx * dx + dy * dy) in if d = 0 then 1 else d)"

text \<open>The distance that the repulsion divides by, after \<^verbatim>\<open>if (dist < 1) dist = 1\<close>.\<close>

definition repulsionDist :: "Node \<Rightarrow> Node \<Rightarrow> real" where
  "repulsionDist node other =
     (let dx = node_x node - node_x other;
          dy = node_y node - node_y other;
          dist = distOr1 dx dy
      in if dist < 1 then 1 else dist)"

text \<open>What one iteration of the repulsion loop adds to \<^verbatim>\<open>(fx, fy)\<close>.\<close>

definition repulsion :: "Node \<Rightarrow> Node \<Rightarrow> real \<times> real" where
  "repulsion node other =
     (let dx = node_x node - node_x other;
          dy = node_y node - node_y other;
          dist = repulsionDist node other;
          force = REPULSION / (dist * dist)
      in ((dx / dist) * force, (dy / dist) * force))"

definition repulsionStep :: "Node list \<Rightarrow> nat \<Rightarrow> real \<times> real \<Rightarrow> nat \<Rightarrow> real \<times> real" where
  "repulsionStep ns i f j =
     (if i = j then f
      else (fst f + fst (repulsion (ns ! i) (ns ! j)), snd f + snd (repulsion (ns ! i) (ns ! j))))"

text \<open>\<^verbatim>\<open>Array.prototype.find\<close>, returning the position of the first match.\<close>

fun findIndex :: "('a \<Rightarrow> bool) \<Rightarrow> 'a list \<Rightarrow> nat option" where
  "findIndex P [] = None"
| "findIndex P (a # as) = (if P a then Some 0 else map_option Suc (findIndex P as))"

text \<open>What one iteration of the attraction loop does to \<^verbatim>\<open>(fx, fy)\<close>.\<close>

definition springStep :: "Node list \<Rightarrow> nat \<Rightarrow> real \<times> real \<Rightarrow> Link \<Rightarrow> real \<times> real" where
  "springStep ns i f link =
     (case findIndex (\<lambda>n. note_id n = source link) ns of
        None \<Rightarrow> f
      | Some s \<Rightarrow>
          (case findIndex (\<lambda>n. note_id n = target link) ns of
             None \<Rightarrow> f
           | Some t \<Rightarrow>
               if i = s \<or> i = t then
                 (let other = (if i = s then t else s);
                      dx = node_x (ns ! i) - node_x (ns ! other);
                      dy = node_y (ns ! i) - node_y (ns ! other);
                      dist = distOr1 dx dy;
                      displacement = dist - SPRING_LENGTH;
                      force = displacement * SPRING_STRENGTH
                  in (fst f - (dx / dist) * force, snd f - (dy / dist) * force))
               else f))"

text \<open>
  The two boundary tests of one axis, in the order of the source, on the pair of the
  coordinate and its velocity component.
\<close>

definition boundary :: "real \<Rightarrow> real \<Rightarrow> real \<times> real \<Rightarrow> real \<times> real" where
  "boundary padding extent pv =
     (let pv1 = (if fst pv < padding then (padding, snd pv * (- 1)) else pv)
      in if fst pv1 > extent - padding then (extent - padding, snd pv1 * (- 1)) else pv1)"

text \<open>The branch of the physics step for the node that is being dragged.\<close>

definition dragNode :: "'a GraphView_scheme \<Rightarrow> Node \<Rightarrow> Node" where
  "dragNode v node =
     node\<lparr> vx := (mouseX v - node_x node) * 0.1,
           vy := (mouseY v - node_y node) * 0.1 \<rparr>"

text \<open>
  The force accumulated for the node at index \<open>i\<close>: repulsion from every other node,
  attraction along the links, centre gravity.
\<close>

definition netForce :: "'a GraphView_scheme \<Rightarrow> nat \<Rightarrow> Node list \<Rightarrow> real \<times> real" where
  "netForce v i ns =
     (let node = ns ! i;
          f1 = foldl (repulsionStep ns i) (0, 0) [0..<length ns];
          f2 = foldl (springStep ns i) f1 (links v);
          cx = width v / 2;
          cy = height v / 2
      in (fst f2 + (cx - node_x node) * CENTER_PULL, snd f2 + (cy - node_y node) * CENTER_PULL))"

text \<open>Applying the force \<open>f\<close> to a node, then the boundary tests.\<close>

definition applyForces :: "'a GraphView_scheme \<Rightarrow> Node \<Rightarrow> real \<times> real \<Rightarrow> Node" where
  "applyForces v node f =
     (let vx1 = (vx node + fst f) * DAMPING;
          vy1 = (vy node + snd f) * DAMPING;
          padding = radius node + 10;
          bx = boundary padding (width v) (node_x node + vx1, vx1);
          by = boundary padding (height v) (node_y node + vy1, vy1)
      in node\<lparr> node_x := fst bx, node_y := fst by, vx := snd bx, vy := snd by \<rparr>)"

text \<open>
  The callback of \<^verbatim>\<open>graphData.nodes.forEach\<close> in the physics step, for the node at index
  \<open>i\<close>. It reads the node list as the earlier iterations left it and writes node \<open>i\<close>.
\<close>

definition stepNode :: "'a GraphView_scheme \<Rightarrow> nat \<Rightarrow> Node list \<Rightarrow> Node list" where
  "stepNode v i ns =
     ns[i := (if draggingNode v = Some i then dragNode v (ns ! i)
              else applyForces v (ns ! i) (netForce v i ns))]"

text \<open>The physics step of \<^verbatim>\<open>animate\<close>: the nodes are updated in place, in list order.\<close>

definition physicsStep :: "'a GraphView_scheme \<Rightarrow> Node list" where
  "physicsStep v = fold (stepNode v) [0..<length (nodes v)] (nodes v)"

definition animate :: "GraphView \<Rightarrow> GraphView" where
  "animate v = v\<lparr> nodes := physicsStep v \<rparr>"

section \<open>Pointer events\<close>

text \<open>
  Coordinates are relative to the canvas (\<^verbatim>\<open>e.clientX - rect.left\<close>,
  \<^verbatim>\<open>e.clientY - rect.top\<close>).
\<close>

definition pointerDist :: "Node \<Rightarrow> real \<Rightarrow> real \<Rightarrow> real" where
  "pointerDist n px py = sqrt ((node_x n - px)\<^sup>2 + (node_y n - py)\<^sup>2)"

definition handleMouseDown :: "real \<Rightarrow> real \<Rightarrow> GraphView \<Rightarrow> GraphView" where
  "handleMouseDown px py v =
     (case findIndex (\<lambda>n. pointerDist n px py < radius n + 5) (nodes v) of
        None \<Rightarrow> v
      | Some clickedNode \<Rightarrow> v\<lparr> draggingNode := Some clickedNode \<rparr>)"

text \<open>
  The first loop of the effect: a node created at exactly \<open>(0, 0)\<close> is moved near the
  centre of the canvas, which takes two more results of \<^verbatim>\<open>Math.random()\<close>; \<open>k\<close> is the
  number of calls made so far.
\<close>

fun centerNodes :: "(nat \<Rightarrow> real) \<Rightarrow> nat \<Rightarrow> real \<Rightarrow> real \<Rightarrow> Node list \<Rightarrow> Node list" where
  "centerNodes rnd k w h [] = []"
| "centerNodes rnd k w h (n # ns) =
     (if node_x n = 0 \<and> node_y n = 0
      then n\<lparr> node_x := w / 2 + (rnd k - 0.5) * 100,
              node_y := h / 2 + (rnd (k + 1) - 0.5) * 100 \<rparr> # centerNodes rnd (k + 2) w h ns
      else n # centerNodes rnd k w h ns)"

text \<open>
  The effect runs again when \<^verbatim>\<open>hoveredLink\<close>, which is in its dependency list, has
  changed: the old listeners and the old frame loop are removed, and the body of the effect
  creates a new closure. The nodes are the same objects; those at exactly \<open>(0, 0)\<close> are
  moved near the centre again; \<^verbatim>\<open>draggingNode\<close>, \<^verbatim>\<open>mouseX\<close> and \<^verbatim>\<open>mouseY\<close> start
  afresh. The container is taken to have the size that the last resize reported.
\<close>

definition runEffect :: "GraphView \<Rightarrow> GraphView" where
  "runEffect v =
     v\<lparr> nodes := centerNodes (rndStream v) (rndCalls v) (width v) (height v) (nodes v),
        rndCalls := rndCalls v
          + 2 * length (filter (\<lambda>n. node_x n = 0 \<and> node_y n = 0) (nodes v)),
        draggingNode := None,
        mouseX := 0,
        mouseY := 0 \<rparr>"

text \<open>
  The callback of \<^verbatim>\<open>graphData.links.find\<close> in \<^verbatim>\<open>handleMouseMove\<close>: the distance from
  the pointer to the segment between the two end nodes is below 5.
\<close>

definition linkHit :: "Node list \<Rightarrow> real \<Rightarrow> real \<Rightarrow> Link \<Rightarrow> bool" where
  "linkHit ns mx my l =
     (case find (\<lambda>n. note_id n = source l) ns of
        None \<Rightarrow> False
      | Some src \<Rightarrow>
          (case find (\<lambda>n. note_id n = target l) ns of
             None \<Rightarrow> False
           | Some tgt \<Rightarrow>
               (let a = mx - node_x src;
                    b = my - node_y src;
                    c = node_x tgt - node_x src;
                    d = node_y tgt - node_y src;
                    dot = a * c + b * d;
                    len_sq = c * c + d * d;
                    param = (if len_sq \<noteq> 0 then dot / len_sq else - 1);
                    xx = (if param < 0 then node_x src
                          else if param > 1 then node_x tgt else node_x src + param * c);
                    yy = (if param < 0 then node_y src
                          else if param > 1 then node_y tgt else node_y src + param * d);
                    dx = mx - xx;
                    dy = my - yy
                in sqrt (dx * dx + dy * dy) < 5)))"

text \<open>
  \<^verbatim>\<open>handleMouseMove\<close> records the pointer and, while a node is dragged, returns. Otherwise
  it sets \<^verbatim>\<open>hoveredNode\<close> and \<^verbatim>\<open>hoveredLink\<close>. A link that is hit gives a new object,
  and \<^verbatim>\<open>null\<close> replaces an object, so \<^verbatim>\<open>hoveredLink\<close> stays the same only when it was
  and remains \<^verbatim>\<open>null\<close>; in every other case the component renders again and the effect
  is run again, which is taken to happen before the next event is handled.
\<close>

definition handleMouseMove :: "real \<Rightarrow> real \<Rightarrow> GraphView \<Rightarrow> GraphView" where
  "handleMouseMove px py v =
     (let v1 = v\<lparr> mouseX := px, mouseY := py \<rparr> in
      if draggingNode v \<noteq> None then v1
      else
        (let hovered = findIndex (\<lambda>n. pointerDist n px py < radius n + 5) (nodes v);
             newLink = (if hovered = None
                        then map_option (\<lambda>l. (l, px, py))
                               (findIndex (linkHit (nodes v) px py) (links v))
                        else None);
             v2 = v1\<lparr> hoveredNode := hovered, hoveredLink := newLink \<rparr>
         in if newLink = None \<and> hoveredLink v = None then v2 else runEffect v2))"

definition handleMouseUp :: "real \<Rightarrow> real \<Rightarrow> GraphView \<Rightarrow> GraphView" where
  "handleMouseUp px py v =
     (case draggingNode v of
        None \<Rightarrow> v
      | Some d \<Rightarrow>
          (let n = nodes v ! d;
               dist = pointerDist n px py;
               v1 = (if dist < radius n + 10 \<and> note_id n \<noteq> currentNoteId v
                     then v\<lparr> selected := selected v @ [note_id n] \<rparr> else v)
           in v1\<lparr> draggingNode := None \<rparr>))"

datatype Event =
  MouseDown real real | MouseMove real real | MouseUp real real | MouseLeave
  | Resize real real | Frame

fun handle :: "Event \<Rightarrow> GraphView \<Rightarrow> GraphView" where
  "handle (MouseDown px py) v = handleMouseDown px py v"
| "handle (MouseMove px py) v = handleMouseMove px py v"
| "handle (MouseUp px py) v = handleMouseUp px py v"
| "handle MouseLeave v = v\<lparr> draggingNode := None \<rparr>"
| "handle (Resize w h) v = v\<lparr> width := w, height := h \<rparr>"
| "handle Frame v = animate v"

text \<open>A sequence of events, handled one after the other on the single event queue.\<close>

fun run :: "GraphView \<Rightarrow> Event list \<Rightarrow> GraphView" where
  "run v [] = v"
| "run v (e # es) = run (handle e v) es"

section \<open>Mounting the view\<close>

text \<open>
  The state of a freshly mounted view: the graph built from the props, the first loop of
  the effect applied to its nodes, the container size \<open>w\<close> by \<open>h\<close>, nothing dragged or
  hovered, the pointer variables at zero.
\<close>

definition mount :: "Note \<Rightarrow> Note list \<Rightarrow> (nat \<Rightarrow> real) \<Rightarrow> real \<Rightarrow> real \<Rightarrow> GraphView" where
  "mount currentNote allNotes rnd w h =
     (let g = graphData currentNote allNotes rnd in
      \<lparr> nodes = centerNodes rnd (2 * length (nodes g)) w h (nodes g),
        links = links g,
        width = w, height = h,
        draggingNode = None,
        mouseX = 0, mouseY = 0,
        currentNoteId = note_id currentNote,
        selected = [],
        hoveredNode = None,
        hoveredLink = None,
        rndStream = rnd,
        rndCalls = 2 * length (nodes g)
          + 2 * length (filter (\<lambda>n. node_x n = 0 \<and> node_y n = 0) (nodes g)) \<rparr>)"

section \<open>Notions used in the properties\<close>

text \<open>The links that join the unordered pair of identifiers \<open>a\<close> and \<open>b\<close>.\<close>

definition edgesBetween :: "Link list \<Rightarrow> string \<Rightarrow> string \<Rightarrow> Link list" where
  "edgesBetween ls a b =
     filter (\<lambda>l. (source l = a \<and> target l = b) \<or> (source l = b \<and> target l = a)) ls"

text \<open>
  The node list as the iteration for index \<open>i\<close> of a physics step finds it: the nodes
  before \<open>i\<close> have been moved already, the others not yet.
\<close>

definition nodesBefore :: "'a GraphView_scheme \<Rightarrow> nat \<Rightarrow> Node list" where
  "nodesBefore v i = fold (stepNode v) [0..<i] (nodes v)"

text \<open>The containment interval of both axes, for a canvas of \<open>w\<close> by \<open>h\<close>.\<close>

definition inBounds :: "real \<Rightarrow> real \<Rightarrow> Node \<Rightarrow> bool" where
  "inBounds w h n =
     (radius n + 10 \<le> node_x n \<and> node_x n \<le> w - radius n - 10 \<and>
      radius n + 10 \<le> node_y n \<and> node_y n \<le> h - radius n - 10)"

text \<open>Node \<open>d\<close> is the dragged node before each event of the list and after the last.\<close>

fun staysDragging :: "nat \<Rightarrow> GraphView \<Rightarrow> Event list \<Rightarrow> bool" where
  "staysDragging d v [] = (draggingNode v = Some d)"
| "staysDragging d v (e # es) = (draggingNode v = Some d \<and> staysDragging d (handle e v) es)"

text \<open>Every node carries the current-node flag exactly when it has the current identifier.\<close>

definition focalFlags :: "GraphView \<Rightarrow> bool" where
  "focalFlags v = list_all (\<lambda>n. isCurrent n = (note_id n = currentNoteId v)) (nodes v)"

text \<open>The events that can occur between pointer-down and pointer-up of one gesture.\<close>

fun duringGesture :: "Event \<Rightarrow> bool" where
  "duringGesture (MouseMove px py) = True"
| "duringGesture Frame = True"
| "duringGesture (Resize w h) = True"
| "duringGesture e = False"

section \<open>Example inputs\<close>

text \<open>A note with the given identifier, empty content and links to the given targets.\<close>

definition exNote :: "string \<Rightarrow> string list \<Rightarrow> Note" where
  "exNote i targets =
     \<lparr> note_id = i, title = i, content = [],
       metadata = Some \<lparr> lifeAxis = None,
         smartLinks = Some (map (\<lambda>t. \<lparr> targetId = t, targetTitle = t, reason = ''related'' \<rparr>)
                                targets) \<rparr> \<rparr>"

text \<open>A stream of random numbers that starts with the given ones and continues with zeros.\<close>

definition rndOf :: "real list \<Rightarrow> nat \<Rightarrow> real" where
  "rndOf rs k = (if k < length rs then rs ! k else 0)"

text \<open>
  Note \<open>b\<close> (radius 8) at \<open>(100, 150)\<close> and the current note \<open>a\<close> (radius 20) at
  \<open>(200, 150)\<close>, not linked, on a canvas of 800 by 300.
\<close>

definition exPair :: GraphView where
  "exPair = mount (exNote ''a'' []) [exNote ''b'' []] (rndOf [5/8, 3/4, 3/4, 3/4]) 800 300"


text \<open>The current note alone on a canvas of 30 by 30.\<close>

definition exSmall :: GraphView where
  "exSmall = mount (exNote ''a'' []) [] (rndOf []) 30 30"

text \<open>The current note alone at the centre \<open>(300, 200)\<close> of a canvas of 600 by 400.\<close>

definition exCentred :: GraphView where
  "exCentred = mount (exNote ''a'' []) [] (rndOf [7/8, 5/6]) 600 400"

text \<open>
  Note \<open>b\<close> (radius 8) at \<open>(100, 100)\<close> and the current note \<open>a\<close> at \<open>(300, 100)\<close>
  on a canvas of 800 by 600.
\<close>

definition exClick :: GraphView where
  "exClick = mount (exNote ''a'' []) [exNote ''b'' []] (rndOf [5/8, 2/3, 7/8, 2/3]) 800 600"

section \<open>The builder\<close>

lemma addNodes_map:
  assumes "\<And>r1 r2 n. f (makeNode cur r1 r2 n) = g n"
  shows "map f (fst (addNodes cur rnd ms (ns, m))) = map f ns @ map g ms"
  using assms by (induction ms arbitrary: ns m) (simp_all add: Let_def)

lemma addNodes_dom:
  "dom (snd (addNodes cur rnd ms (ns, m))) = dom m \<union> note_id ` set ms"
  by (induction ms arbitrary: ns m) (auto simp: Let_def)

lemma find_None_iff_ids:
  "(find (\<lambda>n. note_id n = i) xs = None) = (i \<notin> note_id ` set xs)"
  by (induction xs) auto

lemma replaced_ids:
  "map note_id (map (\<lambda>n. if note_id n = note_id cur then cur else n) pool) = map note_id pool"
  by (induction pool) auto

lemma mergedNotes_ids:
  "map note_id (mergedNotes cur pool) =
     map note_id pool @ (if note_id cur \<in> note_id ` set pool then [] else [note_id cur])"
proof -
  let ?merged = "map (\<lambda>n. if note_id n = note_id cur then cur else n) pool"
  have "set (map note_id ?merged) = set (map note_id pool)"
    by (simp only: replaced_ids)
  then have "note_id ` set ?merged = note_id ` set pool"
    by (simp only: set_map)
  then show ?thesis
    unfolding mergedNotes_def Let_def find_None_iff_ids
    using replaced_ids [of cur pool] by (simp del: map_map)
qed

lemma graphData_nodes:
  "nodes (graphData cur pool rnd) = fst (addNodes cur rnd (mergedNotes cur pool) ([], Map.empty))"
  by (simp add: graphData_def split: prod.splits)

lemma graphData_links:
  "links (graphData cur pool rnd) =
     buildLinks (snd (addNodes cur rnd (mergedNotes cur pool) ([], Map.empty)))
       (nodes (graphData cur pool rnd)) []"
  by (simp add: graphData_def split: prod.splits)

lemma graphData_node_ids:
  "map note_id (nodes (graphData cur pool rnd)) = map note_id (mergedNotes cur pool)"
  using addNodes_map [where f = note_id and g = note_id and cur = cur and rnd = rnd
      and ms = "mergedNotes cur pool" and ns = "[]" and m = Map.empty]
  by (simp add: graphData_nodes makeNode_def Let_def)


lemma graphData_focal_flags:
  "\<forall>node \<in> set (nodes (graphData cur pool rnd)). isCurrent node = (note_id node = note_id cur)"
proof -
  have "map (\<lambda>node. isCurrent node = (note_id node = note_id cur)) (nodes (graphData cur pool rnd))
          = map (\<lambda>_. True) (mergedNotes cur pool)"
    using addNodes_map [where f = "\<lambda>node. isCurrent node = (note_id node = note_id cur)"
        and g = "\<lambda>_. True" and cur = cur and rnd = rnd
        and ms = "mergedNotes cur pool" and ns = "[]" and m = Map.empty]
    by (simp add: graphData_nodes makeNode_def Let_def)
  then have "set (map (\<lambda>node. isCurrent node = (note_id node = note_id cur))
                (nodes (graphData cur pool rnd))) \<subseteq> {True}"
    by auto
  then show ?thesis by auto
qed

lemma count_ids: "length (filter (\<lambda>i. i = c) (map note_id xs)) = length (filter (\<lambda>n. note_id n = c) xs)"
  by (induction xs) auto

lemma count_pos: "c \<in> note_id ` set xs \<Longrightarrow> 1 \<le> length (filter (\<lambda>n. note_id n = c) xs)"
  by (induction xs) auto

lemma count_zero: "c \<notin> note_id ` set xs \<Longrightarrow> length (filter (\<lambda>n. note_id n = c) xs) = 0"
  by (induction xs) auto

lemma graphData_focal_count:
  "length (filter isCurrent (nodes (graphData cur pool rnd)))
     = max 1 (length (filter (\<lambda>n. note_id n = note_id cur) pool))"
proof -
  let ?ns = "nodes (graphData cur pool rnd)"
  have "filter isCurrent ?ns = filter (\<lambda>node. note_id node = note_id cur) ?ns"
    using graphData_focal_flags [of cur pool rnd] by (auto intro: filter_cong)
  then have "length (filter isCurrent ?ns)
      = length (filter (\<lambda>node. note_id node = note_id cur) ?ns)"
    by (simp only:)
  also have "\<dots> = length (filter (\<lambda>i. i = note_id cur) (map note_id ?ns))"
    by (rule count_ids [symmetric])
  also have "\<dots> = length (filter (\<lambda>i. i = note_id cur) (map note_id pool))
       + (if note_id cur \<in> note_id ` set pool then 0 else 1)"
    by (simp add: graphData_node_ids mergedNotes_ids)
  also have "\<dots> = length (filter (\<lambda>n. note_id n = note_id cur) pool)
       + (if note_id cur \<in> note_id ` set pool then 0 else 1)"
    by (simp only: count_ids)
  also have "\<dots> = max 1 (length (filter (\<lambda>n. note_id n = note_id cur) pool))"
    using count_pos [of "note_id cur" pool] count_zero [of "note_id cur" pool]
    by (cases "note_id cur \<in> note_id ` set pool") simp_all
  finally show ?thesis .
qed

lemma linkExists_edgesBetween: "linkExists ls a b = (edgesBetween ls a b \<noteq> [])"
  by (auto simp: linkExists_def edgesBetween_def list_ex_iff filter_empty_conv)

lemma edgesBetween_sym: "edgesBetween ls a b = edgesBetween ls b a"
  by (auto simp: edgesBetween_def intro: filter_cong)

lemma edgesBetween_snoc_other:
  "\<not> ((s = a \<and> t = b) \<or> (s = b \<and> t = a)) \<Longrightarrow>
   edgesBetween (ls @ [\<lparr> source = s, target = t, link_reason = r \<rparr>]) a b = edgesBetween ls a b"
  by (simp add: edgesBetween_def)

lemma edgesBetween_snoc_same:
  "(s = a \<and> t = b) \<or> (s = b \<and> t = a) \<Longrightarrow>
   edgesBetween (ls @ [\<lparr> source = s, target = t, link_reason = r \<rparr>]) a b
     = edgesBetween ls s t @ [\<lparr> source = s, target = t, link_reason = r \<rparr>]"
  using edgesBetween_sym [of ls a b] by (auto simp: edgesBetween_def)

lemma snoc_atmost:
  assumes "\<forall>a b. length (edgesBetween ls a b) \<le> 1" and "\<not> linkExists ls s t"
  shows "\<forall>a b. length (edgesBetween (ls @ [\<lparr> source = s, target = t, link_reason = r \<rparr>]) a b) \<le> 1"
proof (intro allI)
  fix a b
  show "length (edgesBetween (ls @ [\<lparr> source = s, target = t, link_reason = r \<rparr>]) a b) \<le> 1"
  proof (cases "(s = a \<and> t = b) \<or> (s = b \<and> t = a)")
    case True
    then show ?thesis
      using assms(2) by (simp add: edgesBetween_snoc_same linkExists_edgesBetween)
  next
    case False
    then show ?thesis
      using assms(1) by (simp add: edgesBetween_snoc_other)
  qed
qed

lemma addLinks_atmost:
  "\<forall>a b. length (edgesBetween ls a b) \<le> 1 \<Longrightarrow>
   \<forall>a b. length (edgesBetween (addLinks m sid sls ls) a b) \<le> 1"
proof (induction sls arbitrary: ls)
  case Nil
  then show ?case by simp
next
  case (Cons sl sls)
  show ?case
    using Cons.IH Cons.prems snoc_atmost by simp
qed

lemma buildLinks_atmost:
  "\<forall>a b. length (edgesBetween ls a b) \<le> 1 \<Longrightarrow>
   \<forall>a b. length (edgesBetween (buildLinks m ns ls) a b) \<le> 1"
proof (induction ns arbitrary: ls)
  case Nil
  then show ?case by simp
next
  case (Cons n ns)
  show ?case
    using Cons.IH [OF addLinks_atmost [OF Cons.prems]] by simp
qed

lemma linkExists_snoc: "linkExists ls a b \<Longrightarrow> linkExists (ls @ [l]) a b"
  by (simp add: linkExists_def)

lemma addLinks_mono: "linkExists ls a b \<Longrightarrow> linkExists (addLinks m sid sls ls) a b"
  by (induction sls arbitrary: ls) (simp_all add: linkExists_snoc)

lemma buildLinks_mono: "linkExists ls a b \<Longrightarrow> linkExists (buildLinks m ns ls) a b"
  by (induction ns arbitrary: ls) (simp_all add: addLinks_mono)

lemma addLinks_adds:
  "sl \<in> set sls \<Longrightarrow> m (targetId sl) \<noteq> None \<Longrightarrow>
   linkExists (addLinks m sid sls ls) sid (targetId sl)"
proof (induction sls arbitrary: ls)
  case Nil
  then show ?case by simp
next
  case (Cons a sls)
  show ?case
  proof (cases "sl = a")
    case True
    have "linkExists (if \<not> linkExists ls sid (targetId a)
           then ls @ [\<lparr> source = sid, target = targetId a, link_reason = reason a \<rparr>]
           else ls) sid (targetId a)"
      by (simp add: linkExists_def)
    then show ?thesis
      using Cons.prems True by (simp add: addLinks_mono)
  next
    case False
    then show ?thesis
      using Cons by simp
  qed
qed

lemma buildLinks_adds:
  "n \<in> set ns \<Longrightarrow> sl \<in> set (declaredLinks n) \<Longrightarrow> m (targetId sl) \<noteq> None \<Longrightarrow>
   linkExists (buildLinks m ns ls) (note_id n) (targetId sl)"
proof (induction ns arbitrary: ls)
  case Nil
  then show ?case by simp
next
  case (Cons a ns)
  show ?case
  proof (cases "n = a")
    case True
    then show ?thesis
      using Cons.prems by (simp add: addLinks_adds buildLinks_mono)
  next
    case False
    then show ?thesis
      using Cons by simp
  qed
qed

lemma graphData_atmost:
  "length (edgesBetween (links (graphData cur pool rnd)) a b) \<le> 1"
  using buildLinks_atmost [of "[]"] by (simp add: graphData_links edgesBetween_def)

lemma graphData_declared:
  assumes "n \<in> set (mergedNotes cur pool)"
  shows "\<exists>node \<in> set (nodes (graphData cur pool rnd)).
           note_id node = note_id n \<and> declaredLinks node = declaredLinks n"
proof -
  have "map (\<lambda>node. (note_id node, declaredLinks node)) (nodes (graphData cur pool rnd))
          = map (\<lambda>n. (note_id n, declaredLinks n)) (mergedNotes cur pool)"
    using addNodes_map [where f = "\<lambda>node. (note_id node, declaredLinks node)"
        and g = "\<lambda>n. (note_id n, declaredLinks n)" and cur = cur and rnd = rnd
        and ms = "mergedNotes cur pool" and ns = "[]" and m = Map.empty]
    by (simp add: graphData_nodes makeNode_def Let_def declaredLinks_def)
  then have "(note_id n, declaredLinks n)
      \<in> set (map (\<lambda>node. (note_id node, declaredLinks node)) (nodes (graphData cur pool rnd)))"
    using assms by auto
  then show ?thesis by auto
qed

lemma graphData_exactly_one:
  assumes "n \<in> set (mergedNotes cur pool)" and "sl \<in> set (declaredLinks n)"
    and "targetId sl \<in> note_id ` set (mergedNotes cur pool)"
  shows "length (edgesBetween (links (graphData cur pool rnd)) (note_id n) (targetId sl)) = 1"
proof -
  obtain node where node: "node \<in> set (nodes (graphData cur pool rnd))"
      "note_id node = note_id n" "declaredLinks node = declaredLinks n"
    using graphData_declared [OF assms(1)] by blast
  have "snd (addNodes cur rnd (mergedNotes cur pool) ([], Map.empty)) (targetId sl) \<noteq> None"
    using addNodes_dom [of cur rnd "mergedNotes cur pool" "[]" Map.empty] assms(3)
    by (auto simp: dom_def)
  then have "linkExists (links (graphData cur pool rnd)) (note_id n) (targetId sl)"
    using buildLinks_adds [of node _ sl] node assms(2) by (simp add: graphData_links)
  then have "length (edgesBetween (links (graphData cur pool rnd)) (note_id n) (targetId sl)) \<noteq> 0"
    by (simp add: linkExists_edgesBetween)
  then show ?thesis
    using graphData_atmost [of cur pool rnd "note_id n" "targetId sl"] by linarith
qed

lemma singleton_map: "map f xs = [y] \<Longrightarrow> \<exists>x. xs = [x] \<and> f x = y"
  by (cases xs) auto

lemma declaredLinks_makeNode: "declaredLinks (makeNode cur r1 r2 n) = declaredLinks n"
  by (simp add: makeNode_def declaredLinks_def Let_def)

lemma note_id_makeNode: "note_id (makeNode cur r1 r2 n) = note_id n"
  by (simp add: makeNode_def Let_def)

lemma three_cycle_build:
  assumes d: "distinct [note_id A, note_id B, note_id C]"
    and tA: "map targetId (declaredLinks A) = [note_id B]"
    and tB: "map targetId (declaredLinks B) = [note_id C]"
    and tC: "map targetId (declaredLinks C) = [note_id A]"
  shows "length (nodes (graphData A [A, B, C] rnd)) = 3 \<and>
         map (\<lambda>l. (source l, target l)) (links (graphData A [A, B, C] rnd))
           = [(note_id A, note_id B), (note_id B, note_id C), (note_id C, note_id A)]"
proof -
  obtain sa sb sc where s: "declaredLinks A = [sa]" "targetId sa = note_id B"
     "declaredLinks B = [sb]" "targetId sb = note_id C"
     "declaredLinks C = [sc]" "targetId sc = note_id A"
    using singleton_map [OF tA] singleton_map [OF tB] singleton_map [OF tC] by blast
  have m: "mergedNotes A [A, B, C] = [A, B, C]"
    using d by (auto simp: mergedNotes_def)
  show ?thesis
    using d s unfolding graphData_def m
    by (auto simp: Let_def declaredLinks_makeNode note_id_makeNode linkExists_def)
qed

section \<open>The physics step\<close>

lemma length_stepNode: "length (stepNode v i ns) = length ns"
  by (simp add: stepNode_def)

lemma stepNode_other: "j \<noteq> i \<Longrightarrow> stepNode v i ns ! j = ns ! j"
  by (simp add: stepNode_def)

lemma stepNode_dragged:
  "draggingNode v = Some i \<Longrightarrow> i < length ns \<Longrightarrow> stepNode v i ns ! i = dragNode v (ns ! i)"
  by (simp add: stepNode_def)

lemma stepNode_free:
  "draggingNode v \<noteq> Some i \<Longrightarrow> i < length ns \<Longrightarrow>
   stepNode v i ns ! i = applyForces v (ns ! i) (netForce v i ns)"
  by (simp add: stepNode_def)

lemma radius_dragNode: "radius (dragNode v n) = radius n"
  by (simp add: dragNode_def)

lemma radius_applyForces: "radius (applyForces v n f) = radius n"
  by (simp add: applyForces_def Let_def)

lemma stepNode_radius: "radius (stepNode v i ns ! k) = radius (ns ! k)"
proof (cases "k = i \<and> i < length ns")
  case True
  then show ?thesis by (simp add: stepNode_def radius_dragNode radius_applyForces)
next
  case False
  then show ?thesis
    by (cases "k = i") (simp_all add: stepNode_def list_update_beyond)
qed

lemma boundary_range:
  "2 * padding \<le> extent \<Longrightarrow>
   padding \<le> fst (boundary padding extent pv) \<and> fst (boundary padding extent pv) \<le> extent - padding"
  by (auto simp: boundary_def Let_def)

lemma applyForces_bounds:
  assumes "2 * (radius n + 10) \<le> width v" and "2 * (radius n + 10) \<le> height v"
  shows "inBounds (width v) (height v) (applyForces v n f)"
proof -
  let ?vx1 = "(vx n + fst f) * DAMPING" and ?vy1 = "(vy n + snd f) * DAMPING"
  show ?thesis
    using boundary_range [OF assms(1), of "(node_x n + ?vx1, ?vx1)"]
      boundary_range [OF assms(2), of "(node_y n + ?vy1, ?vy1)"]
    by (simp add: applyForces_def Let_def inBounds_def)
qed

lemma stepNode_bounds:
  assumes "draggingNode v \<noteq> Some i" and "i < length ns"
    and "2 * (radius (ns ! i) + 10) \<le> width v" and "2 * (radius (ns ! i) + 10) \<le> height v"
  shows "inBounds (width v) (height v) (stepNode v i ns ! i)"
  using assms by (simp add: stepNode_free applyForces_bounds)

lemma length_fold_stepNode: "length (fold (stepNode v) js ns) = length ns"
  by (induction js arbitrary: ns) (simp_all add: length_stepNode)

lemma fold_stepNode_other: "k \<notin> set js \<Longrightarrow> fold (stepNode v) js ns ! k = ns ! k"
  by (induction js arbitrary: ns) (simp_all add: stepNode_other)

lemma fold_stepNode_radius: "radius (fold (stepNode v) js ns ! k) = radius (ns ! k)"
  by (induction js arbitrary: ns) (simp_all add: stepNode_radius)

lemma length_physicsStep: "length (physicsStep v) = length (nodes v)"
  by (simp add: physicsStep_def length_fold_stepNode)

lemma length_nodesBefore: "length (nodesBefore v i) = length (nodes v)"
  by (simp add: nodesBefore_def length_fold_stepNode)

lemma nodesBefore_self: "nodesBefore v k ! k = nodes v ! k"
  by (simp add: nodesBefore_def fold_stepNode_other)

lemma physicsStep_nth:
  assumes "k < length (nodes v)"
  shows "physicsStep v ! k = stepNode v k (nodesBefore v k) ! k"
proof -
  have "[0..<length (nodes v)] = [0..<k] @ k # [Suc k..<length (nodes v)]"
    using assms by (metis le0 upt_add_eq_append upt_conv_Cons le_add_diff_inverse less_imp_le_nat)
  then have "physicsStep v
      = fold (stepNode v) [Suc k..<length (nodes v)] (stepNode v k (nodesBefore v k))"
    by (simp add: physicsStep_def nodesBefore_def)
  then show ?thesis
    by (simp add: fold_stepNode_other)
qed

lemma physicsStep_radius: "radius (physicsStep v ! k) = radius (nodes v ! k)"
  by (simp add: physicsStep_def fold_stepNode_radius)

lemma physicsStep_dragged:
  assumes "draggingNode v = Some d" and "d < length (nodes v)"
  shows "physicsStep v ! d = dragNode v (nodes v ! d)"
  using assms by (simp add: physicsStep_nth stepNode_dragged length_nodesBefore nodesBefore_self)

lemma physicsStep_bounds:
  assumes "draggingNode v \<noteq> Some k" and "k < length (nodes v)"
    and "2 * (radius (nodes v ! k) + 10) \<le> width v"
    and "2 * (radius (nodes v ! k) + 10) \<le> height v"
  shows "inBounds (width v) (height v) (physicsStep v ! k)"
  using assms stepNode_bounds [of v k "nodesBefore v k"]
  by (simp add: physicsStep_nth length_nodesBefore nodesBefore_self)

lemma animate_funpow_fields:
  "width ((animate ^^ n) v) = width v \<and> height ((animate ^^ n) v) = height v \<and>
   draggingNode ((animate ^^ n) v) = draggingNode v \<and>
   length (nodes ((animate ^^ n) v)) = length (nodes v) \<and>
   radius (nodes ((animate ^^ n) v) ! k) = radius (nodes v ! k)"
  by (induction n) (simp_all add: animate_def length_physicsStep physicsStep_radius)

section \<open>Repulsion\<close>





lemma distOr1_ge: "sqrt (dx * dx + dy * dy) \<le> distOr1 dx dy"
  by (simp add: distOr1_def Let_def)

lemma repulsionDist_ge1: "1 \<le> repulsionDist a b"
  by (simp add: repulsionDist_def Let_def)

lemma clamp_ge: "(s::real) \<le> d \<Longrightarrow> s \<le> (if d < 1 then 1 else d)"
  by auto

lemma sq_scale:
  "((dx / D) * F)\<^sup>2 + ((dy / D) * F)\<^sup>2 = ((dx * dx + dy * dy) / (D * D)) * (F::real)\<^sup>2"
proof -
  have "((dx / D) * F)\<^sup>2 = (dx * dx) / (D * D) * F\<^sup>2"
    and "((dy / D) * F)\<^sup>2 = (dy * dy) / (D * D) * F\<^sup>2"
    by (simp_all add: power2_eq_square)
  then show ?thesis
    by (simp only: add_divide_distrib distrib_right)
qed

lemma repulsionDist_ge_dist:
  "sqrt ((node_x a - node_x b) * (node_x a - node_x b) + (node_y a - node_y b) * (node_y a - node_y b))
     \<le> repulsionDist a b"
  unfolding repulsionDist_def Let_def
  by (rule clamp_ge) (rule distOr1_ge)

lemma repulsion_magnitude:
  "sqrt ((fst (repulsion a b))\<^sup>2 + (snd (repulsion a b))\<^sup>2) \<le> REPULSION"
proof -
  define dx where "dx = node_x a - node_x b"
  define dy where "dy = node_y a - node_y b"
  define D where "D = repulsionDist a b"
  define F where "F = REPULSION / (D * D)"
  have D1: "1 \<le> D" by (simp add: D_def repulsionDist_ge1)
  then have Dpos: "0 < D" by linarith
  have DD1: "1 \<le> D * D" using D1 by (metis mult_mono zero_le_one mult_1 order_trans zero_le_one)
  have F0: "0 \<le> F" using Dpos by (simp add: F_def REPULSION_def)
  have FR: "F \<le> REPULSION"
  proof -
    have "REPULSION / (D * D) \<le> REPULSION / 1"
      using DD1 by (intro divide_left_mono) (simp_all add: REPULSION_def)
    then show ?thesis by (simp add: F_def)
  qed
  have d: "sqrt (dx * dx + dy * dy) \<le> D"
    using repulsionDist_ge_dist [of a b] by (simp add: dx_def dy_def D_def)
  then have dd: "dx * dx + dy * dy \<le> D * D"
    using sqrt_le_D [OF d] by (simp add: power2_eq_square)
  have r: "repulsion a b = ((dx / D) * F, (dy / D) * F)"
    by (simp add: repulsion_def Let_def dx_def dy_def D_def F_def)
  have "((dx / D) * F)\<^sup>2 + ((dy / D) * F)\<^sup>2 = ((dx * dx + dy * dy) / (D * D)) * F\<^sup>2"
    by (rule sq_scale)
  also have "\<dots> \<le> 1 * F\<^sup>2"
  proof (rule mult_right_mono)
    show "(dx * dx + dy * dy) / (D * D) \<le> 1"
      using dd Dpos by (simp add: divide_le_eq)
    show "0 \<le> F\<^sup>2" by simp
  qed
  also have "\<dots> \<le> REPULSION\<^sup>2"
    using F0 FR by (simp add: power_mono)
  finally have "((dx / D) * F)\<^sup>2 + ((dy / D) * F)\<^sup>2 \<le> REPULSION\<^sup>2" .
  then have "sqrt (((dx / D) * F)\<^sup>2 + ((dy / D) * F)\<^sup>2) \<le> REPULSION"
    by (intro real_le_lsqrt) (simp_all add: REPULSION_def)
  then show ?thesis by (simp add: r)
qed

section \<open>Pointer gestures\<close>

lemma findIndex_Some: "findIndex P xs = Some i \<Longrightarrow> i < length xs \<and> P (xs ! i)"
proof (induction xs arbitrary: i)
  case Nil
  then show ?case by simp
next
  case (Cons a xs)
  then show ?case
    by (cases "P a") auto
qed

lemma run_append: "run v (es @ fs) = run (run v es) fs"
  by (induction es arbitrary: v) simp_all

lemma animate_dragged:
  assumes "draggingNode v = Some d" and "d < length (nodes v)"
  shows "nodes (animate v) ! d = dragNode v (nodes v ! d)"
  using assms by (simp add: animate_def physicsStep_dragged)

lemma handle_dragged_position:
  assumes "draggingNode v = Some d" and "d < length (nodes v)"
  shows "node_x (nodes (handle e v) ! d) = node_x (nodes v ! d) \<and>
         node_y (nodes (handle e v) ! d) = node_y (nodes v ! d) \<and>
         length (nodes (handle e v)) = length (nodes v)"
proof (cases e)
  case Frame
  then show ?thesis
    using assms by (simp add: animate_dragged dragNode_def) (simp add: animate_def length_physicsStep)
next
  case (MouseDown px py)
  then show ?thesis by (simp add: handleMouseDown_def split: option.splits)
next
  case (MouseUp px py)
  then show ?thesis using assms by (simp add: handleMouseUp_def Let_def)
qed (use assms in \<open>simp_all add: handleMouseMove_def Let_def\<close>)

lemma staysDragging_position:
  "staysDragging d v es \<Longrightarrow> d < length (nodes v) \<Longrightarrow>
   node_x (nodes (run v es) ! d) = node_x (nodes v ! d) \<and>
   node_y (nodes (run v es) ! d) = node_y (nodes v ! d)"
proof (induction es arbitrary: v)
  case Nil
  then show ?case by simp
next
  case (Cons e es)
  then have dr: "draggingNode v = Some d" and st: "staysDragging d (handle e v) es" by simp_all
  note h = handle_dragged_position [OF dr Cons.prems(2), of e]
  have "d < length (nodes (handle e v))" using h Cons.prems(2) by simp
  from Cons.IH [OF st this] h show ?case by simp
qed

lemma gesture_step:
  assumes "duringGesture e" and "draggingNode v = Some d" and "d < length (nodes v)"
  shows "draggingNode (handle e v) = Some d \<and> selected (handle e v) = selected v \<and>
         currentNoteId (handle e v) = currentNoteId v \<and>
         length (nodes (handle e v)) = length (nodes v) \<and>
         node_x (nodes (handle e v) ! d) = node_x (nodes v ! d) \<and>
         node_y (nodes (handle e v) ! d) = node_y (nodes v ! d) \<and>
         radius (nodes (handle e v) ! d) = radius (nodes v ! d) \<and>
         note_id (nodes (handle e v) ! d) = note_id (nodes v ! d)"
proof (cases e)
  case Frame
  then show ?thesis
    using assms(2,3) by (simp add: animate_dragged dragNode_def) (simp add: animate_def length_physicsStep)
next
  case (MouseMove px py)
  then show ?thesis using assms(2) by (simp add: handleMouseMove_def Let_def)
next
  case (Resize w h)
  then show ?thesis using assms(2) by simp
qed (use assms(1) in simp_all)

lemma gesture_run:
  "list_all duringGesture es \<Longrightarrow> draggingNode v = Some d \<Longrightarrow> d < length (nodes v) \<Longrightarrow>
   draggingNode (run v es) = Some d \<and> selected (run v es) = selected v \<and>
   currentNoteId (run v es) = currentNoteId v \<and>
   node_x (nodes (run v es) ! d) = node_x (nodes v ! d) \<and>
   node_y (nodes (run v es) ! d) = node_y (nodes v ! d) \<and>
   radius (nodes (run v es) ! d) = radius (nodes v ! d) \<and>
   note_id (nodes (run v es) ! d) = note_id (nodes v ! d)"
proof (induction es arbitrary: v)
  case Nil
  then show ?case by simp
next
  case (Cons e es)
  then have e: "duringGesture e" and es: "list_all duringGesture es" by simp_all
  note g = gesture_step [OF e Cons.prems(2,3)]
  have "d < length (nodes (handle e v))" using g Cons.prems(3) by simp
  from Cons.IH [OF es _ this] g show ?case by simp
qed

lemma pointerDist_cong:
  "node_x a = node_x b \<Longrightarrow> node_y a = node_y b \<Longrightarrow> pointerDist a px py = pointerDist b px py"
  by (simp add: pointerDist_def)

lemma gesture_selected:
  assumes hit: "findIndex (\<lambda>n. pointerDist n px py < radius n + 5) (nodes v) = Some i"
    and es: "list_all duringGesture es"
  shows "selected (run v (MouseDown px py # es @ [MouseUp qx qy]))
     = selected v @
       (if pointerDist (nodes v ! i) qx qy < radius (nodes v ! i) + 10
           \<and> note_id (nodes v ! i) \<noteq> currentNoteId v
        then [note_id (nodes v ! i)] else [])"
proof -
  let ?v1 = "handle (MouseDown px py) v"
  have i: "i < length (nodes v)" using findIndex_Some [OF hit] by simp
  have v1: "draggingNode ?v1 = Some i" "nodes ?v1 = nodes v" "selected ?v1 = selected v"
    "currentNoteId ?v1 = currentNoteId v"
    using hit by (simp_all add: handleMouseDown_def)
  let ?v2 = "run ?v1 es"
  have g: "draggingNode ?v2 = Some i \<and> selected ?v2 = selected ?v1 \<and>
   currentNoteId ?v2 = currentNoteId ?v1 \<and>
   node_x (nodes ?v2 ! i) = node_x (nodes ?v1 ! i) \<and>
   node_y (nodes ?v2 ! i) = node_y (nodes ?v1 ! i) \<and>
   radius (nodes ?v2 ! i) = radius (nodes ?v1 ! i) \<and>
   note_id (nodes ?v2 ! i) = note_id (nodes ?v1 ! i)"
    using gesture_run [OF es v1(1)] i v1(2) by simp
  have pd: "pointerDist (nodes ?v2 ! i) qx qy = pointerDist (nodes v ! i) qx qy"
    using g v1(2) by (intro pointerDist_cong) simp_all
  have "run v (MouseDown px py # es @ [MouseUp qx qy]) = handleMouseUp qx qy ?v2"
    by (simp add: run_append)
  then show ?thesis
    using g v1 pd by (simp add: handleMouseUp_def Let_def)
qed

lemma pointer_triangle:
  "sqrt ((qx - px)\<^sup>2 + (qy - py)\<^sup>2) \<le> pointerDist n px py + pointerDist n qx qy"
proof -
  have "sqrt (((node_x n - px) + (qx - node_x n))\<^sup>2 + ((node_y n - py) + (qy - node_y n))\<^sup>2)
      \<le> sqrt ((node_x n - px)\<^sup>2 + (node_y n - py)\<^sup>2) + sqrt ((qx - node_x n)\<^sup>2 + (qy - node_y n)\<^sup>2)"
    by (rule real_sqrt_sum_squares_triangle_ineq)
  moreover have "(qx - node_x n)\<^sup>2 = (node_x n - qx)\<^sup>2" "(qy - node_y n)\<^sup>2 = (node_y n - qy)\<^sup>2"
    by (simp_all add: power2_commute)
  ultimately show ?thesis by (simp add: pointerDist_def)
qed

section \<open>The current-node flag in reachable states\<close>

lemma centerNodes_flags:
  "map (\<lambda>n. (isCurrent n, note_id n)) (centerNodes rnd k w h ns)
     = map (\<lambda>n. (isCurrent n, note_id n)) ns"
  by (induction ns arbitrary: k) simp_all

lemma stepNode_flags:
  "isCurrent (stepNode v i ns ! k) = isCurrent (ns ! k) \<and>
   note_id (stepNode v i ns ! k) = note_id (ns ! k)"
proof (cases "k = i \<and> i < length ns")
  case True
  then show ?thesis
    by (simp add: stepNode_def dragNode_def applyForces_def Let_def)
next
  case False
  then show ?thesis
    by (cases "k = i") (simp_all add: stepNode_def list_update_beyond)
qed

lemma fold_stepNode_flags:
  "isCurrent (fold (stepNode v) js ns ! k) = isCurrent (ns ! k) \<and>
   note_id (fold (stepNode v) js ns ! k) = note_id (ns ! k)"
  by (induction js arbitrary: ns) (simp_all add: stepNode_flags)

lemma flags_via_pairs:
  "list_all (\<lambda>n. isCurrent n = (note_id n = c)) ns
     = list_all (\<lambda>p. fst p = (snd p = c)) (map (\<lambda>n. (isCurrent n, note_id n)) ns)"
  by (simp add: list.pred_map comp_def)

lemma mount_focalFlags: "focalFlags (mount cur pool rnd w h)"
proof -
  let ?g = "graphData cur pool rnd"
  have "list_all (\<lambda>n. isCurrent n = (note_id n = note_id cur)) (nodes ?g)"
    using graphData_focal_flags [of cur pool rnd] by (simp add: list_all_iff)
  then have "list_all (\<lambda>n. isCurrent n = (note_id n = note_id cur))
      (centerNodes rnd (2 * length (nodes ?g)) w h (nodes ?g))"
    by (simp only: flags_via_pairs centerNodes_flags)
  then show ?thesis
    by (simp add: focalFlags_def mount_def Let_def)
qed

lemma runEffect_focalFlags: "focalFlags v \<Longrightarrow> focalFlags (runEffect v)"
  by (simp add: focalFlags_def runEffect_def flags_via_pairs centerNodes_flags)

lemma handle_focalFlags: "focalFlags v \<Longrightarrow> focalFlags (handle e v)"
proof (cases e)
  case Frame
  assume "focalFlags v"
  then show ?thesis
    using Frame fold_stepNode_flags [of v "[0..<length (nodes v)]" "nodes v"]
    by (simp add: focalFlags_def animate_def physicsStep_def list_all_length length_fold_stepNode)
next
  case (MouseDown px py)
  assume "focalFlags v"
  then show ?thesis
    using MouseDown by (simp add: focalFlags_def handleMouseDown_def split: option.splits)
next
  case (MouseUp px py)
  assume "focalFlags v"
  then show ?thesis
    using MouseUp by (simp add: focalFlags_def handleMouseUp_def Let_def split: option.splits)
next
  case (MouseMove px py)
  assume f: "focalFlags v"
  let ?v2 = "v\<lparr> mouseX := px, mouseY := py,
      hoveredNode := findIndex (\<lambda>n. pointerDist n px py < radius n + 5) (nodes v),
      hoveredLink := (if findIndex (\<lambda>n. pointerDist n px py < radius n + 5) (nodes v) = None
                        then map_option (\<lambda>l. (l, px, py))
                               (findIndex (linkHit (nodes v) px py) (links v))
                        else None) \<rparr>"
  have "focalFlags ?v2"
    using f by (simp add: focalFlags_def)
  then have "focalFlags (runEffect ?v2)"
    by (rule runEffect_focalFlags)
  then show ?thesis
    using MouseMove f by (simp add: handleMouseMove_def Let_def) (simp add: focalFlags_def)
qed (simp_all add: focalFlags_def)

lemma reachable_focalFlags: "focalFlags (run (mount cur pool rnd w h) es)"
proof -
  have "focalFlags v \<Longrightarrow> focalFlags (run v es)" for v
    by (induction es arbitrary: v) (simp_all add: handle_focalFlags)
  then show ?thesis
    by (simp add: mount_focalFlags)
qed

section \<open>Evaluating the examples\<close>

lemmas mount_defs = mount_def graphData_def mergedNotes_def makeNode_def exNote_def rndOf_def
  Let_def axisColor_def declaredLinks_def linkExists_def

lemmas step_defs = physicsStep_def animate_def stepNode_def netForce_def applyForces_def
  dragNode_def repulsionStep_def repulsion_def repulsionDist_def boundary_def
  REPULSION_def CENTER_PULL_def DAMPING_def upt_rec

lemmas event_defs = handleMouseDown_def handleMouseMove_def handleMouseUp_def pointerDist_def


lemma sqrt_less_num: "0 < y \<Longrightarrow> (sqrt x < y) = (x < y\<^sup>2)"
  by (metis abs_of_pos real_sqrt_abs real_sqrt_less_iff)

lemma sqrt_le_num: "0 \<le> y \<Longrightarrow> (y \<le> sqrt x) = (y\<^sup>2 \<le> x)"
  by (metis abs_of_nonneg real_sqrt_abs real_sqrt_le_iff)

lemma sqrt_gt_num: "0 \<le> y \<Longrightarrow> (y < sqrt x) = (y\<^sup>2 < x)"
  by (metis abs_of_nonneg real_sqrt_abs real_sqrt_less_iff)

lemma exPair_view:
  "length (nodes exPair) = 2 \<and> links exPair = [] \<and> draggingNode exPair = None \<and>
   width exPair = 800 \<and> height exPair = 300 \<and>
   radius (nodes exPair ! 0) = 8 \<and> radius (nodes exPair ! 1) = 20"
  by (simp add: exPair_def mount_defs)





section \<open>What an iteration of the physics step reads\<close>






section \<open>The claims\<close>

subsection \<open>C1: symmetry of the repulsion\<close>




subsection \<open>C2: boundary containment\<close>

text \<open>
  Claim C2, as amended. After one or more physics steps, every node that is not the
  dragged node lies within \<open>[radius + 10, dimension - radius - 10]\<close> on both axes,
  provided that the width and the height of the canvas are each at least
  \<open>2 * (radius + 10)\<close>.
\<close>

theorem positions_contained_after_step:
  "\<forall>k < length (nodes v).
     draggingNode v \<noteq> Some k \<and> 2 * (radius (nodes v ! k) + 10) \<le> width v
       \<and> 2 * (radius (nodes v ! k) + 10) \<le> height v
     \<longrightarrow> inBounds (width v) (height v) (nodes ((animate ^^ Suc n) v) ! k)"
proof (intro allI impI)
  fix k
  assume k: "k < length (nodes v)"
    and h: "draggingNode v \<noteq> Some k \<and> 2 * (radius (nodes v ! k) + 10) \<le> width v
       \<and> 2 * (radius (nodes v ! k) + 10) \<le> height v"
  let ?v = "(animate ^^ n) v"
  have "inBounds (width ?v) (height ?v) (physicsStep ?v ! k)"
    using k h animate_funpow_fields [of n v k] by (intro physicsStep_bounds) simp_all
  then show "inBounds (width v) (height v) (nodes ((animate ^^ Suc n) v) ! k)"
    using animate_funpow_fields [of n v k] by (simp add: animate_def)
qed

text \<open>The amended claim C2 at node 0 of \<open>exPair\<close>, after five steps.\<close>

theorem positions_contained_after_step_witness:
  "0 < length (nodes exPair) \<and> draggingNode exPair \<noteq> Some 0 \<and>
   2 * (radius (nodes exPair ! 0) + 10) \<le> width exPair \<and>
   2 * (radius (nodes exPair ! 0) + 10) \<le> height exPair \<and>
   inBounds (width exPair) (height exPair) (nodes ((animate ^^ Suc 4) exPair) ! 0)"
  using positions_contained_after_step [of exPair 4, THEN spec, of 0] exPair_view
  by simp

text \<open>
  Claim C2 as stated fails in three ways. On a canvas of 30 by 30 the node of radius 20
  is set to \<open>(0, 0)\<close> by the second boundary test of each axis, and the interval
  \<open>[30, 0]\<close> is empty. A node that is dragged while the canvas shrinks to a width of 200
  stays at \<open>x = 300\<close>, beyond \<open>200 - 30\<close>. Before the first step a node is where
  \<^verbatim>\<open>Math.random\<close> put it, here at \<open>(-400, -300)\<close>.
\<close>

theorem positions_not_always_contained:
  "node_x (nodes (animate exSmall) ! 0) = 0 \<and> node_y (nodes (animate exSmall) ! 0) = 0 \<and>
   \<not> inBounds (width exSmall) (height exSmall) (nodes (animate exSmall) ! 0) \<and>
   draggingNode (run exCentred [Frame, MouseDown 300 200, Resize 200 400, Frame]) = Some 0 \<and>
   node_x (nodes (run exCentred [Frame, MouseDown 300 200, Resize 200 400, Frame]) ! 0) = 300 \<and>
   \<not> inBounds 200 400 (nodes (run exCentred [Frame, MouseDown 300 200, Resize 200 400, Frame]) ! 0) \<and>
   \<not> inBounds 800 600 (nodes (mount (exNote ''a'' []) [] (rndOf []) 800 600) ! 0)"
  by (simp add: exSmall_def exCentred_def mount_defs step_defs event_defs inBounds_def)

subsection \<open>C3: one edge per unordered pair\<close>

text \<open>
  Claim C3. The built links contain at most one link for each unordered pair of
  identifiers. When a note of the working set declares a link to the identifier of a
  note of the working set, there is exactly one link for that pair, also when the link is
  declared in both directions. Three notes that link in a cycle give three nodes and
  exactly three links.
\<close>

theorem edges_deduplicated:
  "length (edgesBetween (links (graphData cur pool rnd)) a b) \<le> 1 \<and>
   (n \<in> set (mergedNotes cur pool) \<and> sl \<in> set (declaredLinks n) \<and>
    targetId sl \<in> note_id ` set (mergedNotes cur pool) \<longrightarrow>
      length (edgesBetween (links (graphData cur pool rnd)) (note_id n) (targetId sl)) = 1) \<and>
   (distinct [note_id A, note_id B, note_id C] \<and>
    map targetId (declaredLinks A) = [note_id B] \<and>
    map targetId (declaredLinks B) = [note_id C] \<and>
    map targetId (declaredLinks C) = [note_id A] \<longrightarrow>
      length (nodes (graphData A [A, B, C] rnd')) = 3 \<and>
      map (\<lambda>l. (source l, target l)) (links (graphData A [A, B, C] rnd'))
        = [(note_id A, note_id B), (note_id B, note_id C), (note_id C, note_id A)])"
proof (intro conjI impI)
  show "length (edgesBetween (links (graphData cur pool rnd)) a b) \<le> 1"
    by (rule graphData_atmost)
next
  assume "n \<in> set (mergedNotes cur pool) \<and> sl \<in> set (declaredLinks n) \<and>
    targetId sl \<in> note_id ` set (mergedNotes cur pool)"
  then show "length (edgesBetween (links (graphData cur pool rnd)) (note_id n) (targetId sl)) = 1"
    using graphData_exactly_one [of n cur pool sl rnd] by simp
next
  assume h: "distinct [note_id A, note_id B, note_id C] \<and>
    map targetId (declaredLinks A) = [note_id B] \<and>
    map targetId (declaredLinks B) = [note_id C] \<and>
    map targetId (declaredLinks C) = [note_id A]"
  then have d: "distinct [note_id A, note_id B, note_id C]"
    and tA: "map targetId (declaredLinks A) = [note_id B]"
    and tB: "map targetId (declaredLinks B) = [note_id C]"
    and tC: "map targetId (declaredLinks C) = [note_id A]"
    by simp_all
  note c = three_cycle_build [OF d tA tB tC, of rnd']
  from c show "length (nodes (graphData A [A, B, C] rnd')) = 3" ..
  from c show "map (\<lambda>l. (source l, target l)) (links (graphData A [A, B, C] rnd'))
        = [(note_id A, note_id B), (note_id B, note_id C), (note_id C, note_id A)]" ..
qed

text \<open>
  Claim C3 on the notes \<open>a\<close> and \<open>b\<close> that link to each other, and on the cycle of
  \<open>a\<close>, \<open>b\<close> and \<open>c\<close>.
\<close>

theorem edges_deduplicated_witness:
  "exNote ''b'' [''a''] \<in> set (mergedNotes (exNote ''a'' [''b'']) [exNote ''b'' [''a'']]) \<and>
   \<lparr> targetId = ''a'', targetTitle = ''a'', reason = ''related'' \<rparr>
      \<in> set (declaredLinks (exNote ''b'' [''a''])) \<and>
   ''a'' \<in> note_id ` set (mergedNotes (exNote ''a'' [''b'']) [exNote ''b'' [''a'']]) \<and>
   length (edgesBetween (links (graphData (exNote ''a'' [''b'']) [exNote ''b'' [''a'']] (rndOf [])))
      ''b'' ''a'') = 1 \<and>
   length (links (graphData (exNote ''a'' [''b''])
      [exNote ''a'' [''b''], exNote ''b'' [''c''], exNote ''c'' [''a'']] (rndOf []))) = 3"
  using edges_deduplicated [where cur = "exNote ''a'' [''b'']" and pool = "[exNote ''b'' [''a'']]"
      and rnd = "rndOf []" and n = "exNote ''b'' [''a'']"
      and sl = "\<lparr> targetId = ''a'', targetTitle = ''a'', reason = ''related'' \<rparr>"
      and A = "exNote ''a'' [''b'']" and B = "exNote ''b'' [''c'']" and C = "exNote ''c'' [''a'']"
      and rnd' = "rndOf []"]
  by (simp add: mount_defs edgesBetween_def)

subsection \<open>C4: the focal node\<close>

text \<open>
  Claim C4, as amended. A built node is flagged as current exactly when its identifier
  is the identifier of the current note, and the number of flagged nodes is the number of
  notes of the pool that carry this identifier, or one when there is none. So exactly one
  node is flagged whenever at most one note of the pool has the identifier of the current
  note, whether or not the pool contains it.
\<close>

theorem focal_nodes_counted:
  "length (filter isCurrent (nodes (graphData cur pool rnd)))
     = max 1 (length (filter (\<lambda>n. note_id n = note_id cur) pool)) \<and>
   (node \<in> set (nodes (graphData cur pool rnd)) \<longrightarrow>
      isCurrent node = (note_id node = note_id cur))"
  using graphData_focal_count [of cur pool rnd] graphData_focal_flags [of cur pool rnd]
  by blast

text \<open>The amended claim C4 on a pool that holds the current note \<open>a\<close> once.\<close>

theorem focal_nodes_counted_witness:
  "nodes (graphData (exNote ''a'' []) [exNote ''b'' [], exNote ''a'' []] (rndOf [])) ! 1
     \<in> set (nodes (graphData (exNote ''a'' []) [exNote ''b'' [], exNote ''a'' []] (rndOf []))) \<and>
   isCurrent (nodes (graphData (exNote ''a'' []) [exNote ''b'' [], exNote ''a'' []] (rndOf [])) ! 1) \<and>
   note_id (nodes (graphData (exNote ''a'' []) [exNote ''b'' [], exNote ''a'' []] (rndOf [])) ! 1)
     = ''a'' \<and>
   length (filter isCurrent
     (nodes (graphData (exNote ''a'' []) [exNote ''b'' [], exNote ''a'' []] (rndOf [])))) = 1"
  using focal_nodes_counted [where cur = "exNote ''a'' []"
      and pool = "[exNote ''b'' [], exNote ''a'' []]" and rnd = "rndOf []"
      and node = "nodes (graphData (exNote ''a'' []) [exNote ''b'' [], exNote ''a'' []] (rndOf [])) ! 1"]
  by (simp add: mount_defs)

text \<open>
  Claim C4 as stated fails on a pool that holds two notes with the identifier of the
  current note: both are replaced by the current note and both nodes are flagged.
\<close>

theorem two_focal_nodes:
  "length (filter isCurrent
     (nodes (graphData (exNote ''a'' []) [exNote ''a'' [], exNote ''a'' []] (rndOf [])))) = 2"
  by (simp add: mount_defs)

subsection \<open>C5: click or drag\<close>

text \<open>
  Claim C5, as amended. Let a pointer-down at \<open>(px, py)\<close> pick node \<open>X\<close>, in a
  view whose current-node flags agree with the current identifier, as they do in every
  state that is reachable from a mounted view. If the pointer-up follows at once at the
  same point, \<^verbatim>\<open>onSelectNote\<close> is called with the identifier of \<open>X\<close> exactly when
  \<open>X\<close> is not the current node. If pointer moves, frames
  and resizes follow and the pointer is released at a point whose distance from the centre
  of \<open>X\<close> is at least the radius of \<open>X\<close> plus 10, \<^verbatim>\<open>onSelectNote\<close> is not called; a
  pointer movement of at least twice the radius plus 15 between press and release is
  enough for that.
\<close>

theorem click_or_drag:
  "(findIndex (\<lambda>n. pointerDist n px py < radius n + 5) (nodes v) = Some i \<and>
    focalFlags v \<longrightarrow>
      selected (run v [MouseDown px py, MouseUp px py])
        = selected v @ (if isCurrent (nodes v ! i) then [] else [note_id (nodes v ! i)])) \<and>
   (findIndex (\<lambda>n. pointerDist n px py < radius n + 5) (nodes v) = Some i \<and>
    list_all duringGesture es \<and>
    radius (nodes v ! i) + 10 \<le> pointerDist (nodes v ! i) qx qy \<longrightarrow>
      selected (run v (MouseDown px py # es @ [MouseUp qx qy])) = selected v) \<and>
   (findIndex (\<lambda>n. pointerDist n px py < radius n + 5) (nodes v) = Some i \<and>
    list_all duringGesture es \<and>
    2 * radius (nodes v ! i) + 15 \<le> sqrt ((qx - px)\<^sup>2 + (qy - py)\<^sup>2) \<longrightarrow>
      selected (run v (MouseDown px py # es @ [MouseUp qx qy])) = selected v)"
proof (intro conjI impI)
  assume h: "findIndex (\<lambda>n. pointerDist n px py < radius n + 5) (nodes v) = Some i \<and>
    focalFlags v"
  then have i: "i < length (nodes v)"
    and near: "pointerDist (nodes v ! i) px py < radius (nodes v ! i) + 10"
    using findIndex_Some [of _ "nodes v" i] by fastforce+
  have "isCurrent (nodes v ! i) = (note_id (nodes v ! i) = currentNoteId v)"
    using h i by (simp add: focalFlags_def list_all_length)
  with near show "selected (run v [MouseDown px py, MouseUp px py])
        = selected v @ (if isCurrent (nodes v ! i) then [] else [note_id (nodes v ! i)])"
    using h gesture_selected [of px py v i "[]" px py] by simp
next
  assume h: "findIndex (\<lambda>n. pointerDist n px py < radius n + 5) (nodes v) = Some i \<and>
    list_all duringGesture es \<and>
    radius (nodes v ! i) + 10 \<le> pointerDist (nodes v ! i) qx qy"
  then show "selected (run v (MouseDown px py # es @ [MouseUp qx qy])) = selected v"
    using gesture_selected [of px py v i es qx qy] by simp
next
  assume h: "findIndex (\<lambda>n. pointerDist n px py < radius n + 5) (nodes v) = Some i \<and>
    list_all duringGesture es \<and>
    2 * radius (nodes v ! i) + 15 \<le> sqrt ((qx - px)\<^sup>2 + (qy - py)\<^sup>2)"
  then have "pointerDist (nodes v ! i) px py < radius (nodes v ! i) + 5"
    using findIndex_Some [of _ "nodes v" i] by fastforce
  then have "radius (nodes v ! i) + 10 \<le> pointerDist (nodes v ! i) qx qy"
    using h pointer_triangle [of qx px qy py "nodes v ! i"] by linarith
  then show "selected (run v (MouseDown px py # es @ [MouseUp qx qy])) = selected v"
    using h gesture_selected [of px py v i es qx qy] by simp
qed

text \<open>
  The amended claim C5 on \<open>exClick\<close>: a click on node \<open>b\<close> at its centre
  \<open>(100, 100)\<close> selects \<open>b\<close>; a release at \<open>(200, 100)\<close> after a move and a frame does
  not.
\<close>

theorem click_or_drag_witness:
  "findIndex (\<lambda>n. pointerDist n 100 100 < radius n + 5) (nodes exClick) = Some 0 \<and>
   focalFlags exClick \<and>
   list_all duringGesture [MouseMove 200 100, Frame] \<and>
   radius (nodes exClick ! 0) + 10 \<le> pointerDist (nodes exClick ! 0) 200 100 \<and>
   2 * radius (nodes exClick ! 0) + 15 \<le> sqrt ((200 - 100)\<^sup>2 + (100 - 100)\<^sup>2) \<and>
   \<not> isCurrent (nodes exClick ! 0) \<and>
   selected (run exClick [MouseDown 100 100, MouseUp 100 100]) = [''b''] \<and>
   selected (run exClick (MouseDown 100 100 # [MouseMove 200 100, Frame] @ [MouseUp 200 100])) = []"
proof -
  have hit: "findIndex (\<lambda>n. pointerDist n 100 100 < radius n + 5) (nodes exClick) = Some 0"
    by (simp add: exClick_def mount_defs event_defs)
  have flags: "focalFlags exClick"
    using reachable_focalFlags [of "exNote ''a'' []" "[exNote ''b'' []]" "rndOf [5/8, 2/3, 7/8, 2/3]" 800 600 "[]"]
    by (simp add: exClick_def)
  have cur: "\<not> isCurrent (nodes exClick ! 0)" "note_id (nodes exClick ! 0) = ''b''"
    "selected exClick = []"
    by (simp_all add: exClick_def mount_defs)
  have far: "radius (nodes exClick ! 0) + 10 \<le> pointerDist (nodes exClick ! 0) 200 100"
    "2 * radius (nodes exClick ! 0) + 15 \<le> sqrt ((200 - 100)\<^sup>2 + (100 - 100)\<^sup>2)"
    by (simp_all add: exClick_def mount_defs event_defs sqrt_le_num)
  have ges: "list_all duringGesture [MouseMove 200 100, Frame]"
    by simp
  show ?thesis
    using click_or_drag [where v = exClick and i = 0 and px = 100 and py = 100
        and qx = 200 and qy = 100 and es = "[MouseMove 200 100, Frame]"]
      hit flags cur far ges
    by simp
qed

text \<open>
  Claim C5 as stated fails on \<open>exClick\<close>: the pointer goes down on node \<open>b\<close> (radius
  8, centre \<open>(100, 100)\<close>) at \<open>(88, 100)\<close>, moves by 24, which exceeds the radius plus
  10, and is released at \<open>(112, 100)\<close>, which is 12 away from the centre:
  \<^verbatim>\<open>onSelectNote\<close> is called with \<open>b\<close>.
\<close>

theorem moved_pointer_still_navigates:
  "findIndex (\<lambda>n. pointerDist n 88 100 < radius n + 5) (nodes exClick) = Some 0 \<and>
   radius (nodes exClick ! 0) + 10 < sqrt ((112 - 88)\<^sup>2 + (100 - 100)\<^sup>2) \<and>
   selected (run exClick [MouseDown 88 100, MouseMove 112 100, MouseUp 112 100]) = [''b'']"
  by (simp add: exClick_def mount_defs event_defs sqrt_less_num sqrt_gt_num)

subsection \<open>C6: the velocity of the dragged node\<close>




subsection \<open>C7: a note that links to itself\<close>

text \<open>
  Claim C7, as amended. A link that a note of the working set declares to its own
  identifier is not rejected: the built links contain exactly one link whose source and
  target are both that identifier.
\<close>

theorem self_link_builds_self_edge:
  "n \<in> set (mergedNotes cur pool) \<and> sl \<in> set (declaredLinks n) \<and> targetId sl = note_id n \<longrightarrow>
     length (filter (\<lambda>l. source l = note_id n \<and> target l = note_id n)
       (links (graphData cur pool rnd))) = 1"
proof (intro impI)
  assume h: "n \<in> set (mergedNotes cur pool) \<and> sl \<in> set (declaredLinks n) \<and> targetId sl = note_id n"
  then have "targetId sl \<in> note_id ` set (mergedNotes cur pool)"
    by auto
  then have "length (edgesBetween (links (graphData cur pool rnd)) (note_id n) (targetId sl)) = 1"
    using h graphData_exactly_one [of n cur pool sl rnd] by simp
  then show "length (filter (\<lambda>l. source l = note_id n \<and> target l = note_id n)
       (links (graphData cur pool rnd))) = 1"
    using h by (simp add: edgesBetween_def)
qed

text \<open>The amended claim C7 on the current note \<open>a\<close> that links to \<open>a\<close>.\<close>

theorem self_link_builds_self_edge_witness:
  "exNote ''a'' [''a''] \<in> set (mergedNotes (exNote ''a'' [''a'']) []) \<and>
   \<lparr> targetId = ''a'', targetTitle = ''a'', reason = ''related'' \<rparr>
      \<in> set (declaredLinks (exNote ''a'' [''a''])) \<and>
   length (filter (\<lambda>l. source l = ''a'' \<and> target l = ''a'')
     (links (graphData (exNote ''a'' [''a'']) [] (rndOf [])))) = 1"
  using self_link_builds_self_edge [where cur = "exNote ''a'' [''a'']" and pool = "[]"
      and rnd = "rndOf []" and n = "exNote ''a'' [''a'']"
      and sl = "\<lparr> targetId = ''a'', targetTitle = ''a'', reason = ''related'' \<rparr>"]
  by (simp add: mount_defs)

text \<open>
  Claim C7 as stated fails on the current note \<open>a\<close> that declares a link to \<open>a\<close>:
  the build returns the link from \<open>a\<close> to \<open>a\<close>.
\<close>

theorem self_edge_built:
  "links (graphData (exNote ''a'' [''a'']) [] (rndOf []))
     = [\<lparr> source = ''a'', target = ''a'', link_reason = ''related'' \<rparr>]"
  by (simp add: mount_defs)

subsection \<open>C8: distinct node identifiers\<close>

text \<open>
  Claim C8, as amended. The identifiers of the built nodes are those of the pool, in
  order, followed by the identifier of the current note when the pool does not have it;
  they are pairwise distinct exactly when the identifiers of the pool are pairwise
  distinct.
\<close>

theorem node_ids_distinct_iff_pool:
  "map note_id (nodes (graphData cur pool rnd))
     = map note_id pool @ (if note_id cur \<in> note_id ` set pool then [] else [note_id cur]) \<and>
   distinct (map note_id (nodes (graphData cur pool rnd))) = distinct (map note_id pool)"
  by (simp add: graphData_node_ids mergedNotes_ids)

text \<open>The amended claim C8 on a pool with two distinct identifiers.\<close>

theorem node_ids_distinct_iff_pool_witness:
  "distinct (map note_id [exNote ''b'' [], exNote ''c'' []]) \<and>
   distinct (map note_id (nodes (graphData (exNote ''a'' []) [exNote ''b'' [], exNote ''c'' []]
      (rndOf []))))"
  using node_ids_distinct_iff_pool [where cur = "exNote ''a'' []"
      and pool = "[exNote ''b'' [], exNote ''c'' []]" and rnd = "rndOf []"]
  by (simp add: exNote_def)

text \<open>
  Claim C8 as stated fails on a pool that holds two notes with the identifier \<open>a\<close>:
  the nodes carry the identifiers \<open>a\<close>, \<open>a\<close> and \<open>b\<close>.
\<close>

theorem duplicate_node_ids:
  "map note_id (nodes (graphData (exNote ''b'' []) [exNote ''a'' [], exNote ''a'' []] (rndOf [])))
     = [''a'', ''a'', ''b'']"
  by (simp add: mount_defs)

subsection \<open>C9: the repulsion is bounded\<close>

text \<open>
  Claim C9. The distance that the repulsion divides by is at least 1 for every pair of
  node positions, so the divisor is never zero, and the magnitude of the repulsion that
  one node adds for another never exceeds the repulsion constant. For two nodes at the
  same coordinates the distance is 1 and the repulsion is zero.
\<close>

theorem repulsion_bounded:
  "1 \<le> repulsionDist a b \<and>
   repulsionDist a b * repulsionDist a b \<noteq> 0 \<and>
   sqrt ((fst (repulsion a b))\<^sup>2 + (snd (repulsion a b))\<^sup>2) \<le> REPULSION \<and>
   repulsionDist a (b\<lparr> node_x := node_x a, node_y := node_y a \<rparr>) = 1 \<and>
   repulsion a (b\<lparr> node_x := node_x a, node_y := node_y a \<rparr>) = (0, 0)"
proof -
  have "0 < repulsionDist a b"
    using repulsionDist_ge1 [of a b] by linarith
  then have "repulsionDist a b * repulsionDist a b \<noteq> 0"
    by simp
  moreover have "repulsionDist a (b\<lparr> node_x := node_x a, node_y := node_y a \<rparr>) = 1"
    by (simp add: repulsionDist_def distOr1_def)
  moreover have "repulsion a (b\<lparr> node_x := node_x a, node_y := node_y a \<rparr>) = (0, 0)"
    by (simp add: repulsion_def)
  ultimately show ?thesis
    using repulsionDist_ge1 [of a b] repulsion_magnitude [of a b] by simp
qed

subsection \<open>C10: the position of the dragged node\<close>

text \<open>
  Claim C10. A physics step changes nothing but the two velocity components of the
  dragged node: its position and its other fields stay as they are, and no boundary test
  is applied to it. Over any sequence of events during which the node stays the dragged
  node, its position does not change.
\<close>

theorem dragged_position_frozen:
  "(draggingNode v = Some d \<and> d < length (nodes v) \<longrightarrow>
      nodes (animate v) ! d
        = (nodes v ! d)\<lparr> vx := (mouseX v - node_x (nodes v ! d)) * 0.1,
                           vy := (mouseY v - node_y (nodes v ! d)) * 0.1 \<rparr>) \<and>
   (staysDragging d v es \<and> d < length (nodes v) \<longrightarrow>
      node_x (nodes (run v es) ! d) = node_x (nodes v ! d) \<and>
      node_y (nodes (run v es) ! d) = node_y (nodes v ! d))"
  using animate_dragged [of v d] staysDragging_position [of d v es]
  by (simp add: dragNode_def)

text \<open>
  Claim C10 on \<open>exCentred\<close>: the node at \<open>(300, 200)\<close> stays there while it is dragged
  through a pointer move, a frame, a resize to a width of 200 and another frame.
\<close>

theorem dragged_position_frozen_witness:
  "draggingNode (handleMouseDown 300 200 exCentred) = Some 0 \<and>
   0 < length (nodes (handleMouseDown 300 200 exCentred)) \<and>
   staysDragging 0 (handleMouseDown 300 200 exCentred)
     [MouseMove 350 260, Frame, Resize 200 400, Frame] \<and>
   node_x (nodes (run (handleMouseDown 300 200 exCentred)
     [MouseMove 350 260, Frame, Resize 200 400, Frame]) ! 0) = 300 \<and>
   node_y (nodes (run (handleMouseDown 300 200 exCentred)
     [MouseMove 350 260, Frame, Resize 200 400, Frame]) ! 0) = 200"
proof -
  have v: "draggingNode (handleMouseDown 300 200 exCentred) = Some 0"
    "length (nodes (handleMouseDown 300 200 exCentred)) = 1"
    "node_x (nodes (handleMouseDown 300 200 exCentred) ! 0) = 300"
    "node_y (nodes (handleMouseDown 300 200 exCentred) ! 0) = 200"
    by (simp_all add: exCentred_def mount_defs event_defs)
  have s: "staysDragging 0 (handleMouseDown 300 200 exCentred)
     [MouseMove 350 260, Frame, Resize 200 400, Frame]"
    using v(1) by (simp add: handleMouseMove_def Let_def animate_def)
  show ?thesis
    using dragged_position_frozen [where v = "handleMouseDown 300 200 exCentred" and d = 0
        and es = "[MouseMove 350 260, Frame, Resize 200 400, Frame]"] v s
    by simp
qed

end
